theory Spec2Isabelle
  imports Main "HOL-Library.Signed_Division"
begin

section \<open>Data model of \<open>src/App.tsx\<close>\<close>

text \<open>
  The interface \<open>LapTime\<close> (App.tsx, lines 4-9). The field \<open>id\<close> is named
  \<open>id_lap\<close> here, since \<open>id\<close> is the identity function of HOL. All numbers of the
  component are integer counts (milliseconds, lap numbers), modelled as \<open>int\<close>.
\<close>

record LapTime =
  id_lap :: int
  lapNumber :: int
  lapTime :: int
  totalTime :: int

text \<open>
  The state of the component \<open>App\<close> that the stopwatch logic reads and writes: the
  three \<open>useState\<close> cells \<open>time\<close>, \<open>isRunning\<close>, \<open>lapTimes\<close> and the three
  \<open>useRef\<close> cells \<open>intervalRef\<close>, \<open>startTimeRef\<close>, \<open>lapCounter\<close> (lines 33-40).
  The decorative cells (\<open>floatingClocks\<close>, \<open>particles\<close>, \<open>animationRef\<close>) are never
  read by the stopwatch logic and are left out.

  The cell \<open>time\<close> holds the elapsed time of the last render: this is the value
  that the closures \<open>startStopwatch\<close> and \<open>recordLap\<close> read (their dependency
  lists at lines 137 and 172 rebuild them at each render) and that the display
  shows. A call of \<open>setTime\<close> from the sampling callback does not write it; it
  queues an update that React renders later. \<open>pendingTime\<close> is that queue: the
  sample of the last tick that is not rendered yet (an earlier queued sample is
  overwritten by a later one when both are rendered together).

  Two further fields model the browser's timer table, which \<open>setInterval\<close> and
  \<open>clearInterval\<close> act on: \<open>timers\<close> is the set of handles of the sampling
  intervals that are still scheduled, \<open>nextTimer\<close> the handle the next
  \<open>setInterval\<close> returns. Handles are positive and handed out in increasing order.
\<close>

record stopwatch =
  time :: int
  pendingTime :: "int option"
  isRunning :: bool
  lapTimes :: "LapTime list"
  intervalRef :: "nat option"
  startTimeRef :: int
  lapCounter :: int
  timers :: "nat set"
  nextTimer :: nat

definition init :: stopwatch where
  "init = \<lparr> time = 0, pendingTime = None, isRunning = False, lapTimes = [],
            intervalRef = None, startTimeRef = 0, lapCounter = 1, timers = {},
            nextTimer = 1 \<rparr>"


section \<open>The browser's interval timers\<close>

definition setInterval :: "stopwatch \<Rightarrow> nat \<times> stopwatch" where
  "setInterval s =
     (nextTimer s, s\<lparr> timers := insert (nextTimer s) (timers s), nextTimer := Suc (nextTimer s) \<rparr>)"

definition clearInterval :: "nat \<Rightarrow> stopwatch \<Rightarrow> stopwatch" where
  "clearInterval h s = s\<lparr> timers := timers s - {h} \<rparr>"

text \<open>
  The callback given to \<open>setInterval\<close> at line 131,
  \<open>setTime(Date.now() - startTimeRef.current)\<close>, run by the browser for the
  interval \<open>h\<close> at wall-clock time \<open>now\<close>: it queues the sample. An interval that
  is no longer scheduled does not run.
\<close>

definition fire :: "nat \<Rightarrow> int \<Rightarrow> stopwatch \<Rightarrow> stopwatch" where
  "fire h now s =
     (if h \<in> timers s then s\<lparr> pendingTime := Some (now - startTimeRef s) \<rparr> else s)"


section \<open>Rendering\<close>

text \<open>
  React renders the queued sample: it becomes the elapsed time that is shown and
  that the closures of the next render read. A click or a key press is handled and
  rendered at once, ahead of a sample that is still queued, so an operation may run
  between a tick and the render of its sample.
\<close>

definition render :: "stopwatch \<Rightarrow> stopwatch" where
  "render s =
     (case pendingTime s of
        None \<Rightarrow> s
      | Some v \<Rightarrow> s\<lparr> time := v, pendingTime := None \<rparr>)"

text \<open>
  \<open>setTime(v)\<close> called from an operation: the update is rendered before the next
  event. Samples that are still queued are older updates of the same cell, and
  React applies the updates of a cell in the order of the calls, so rendering them
  afterwards ends at \<open>v\<close> again: they are dropped here.
\<close>

definition setTime :: "int \<Rightarrow> stopwatch \<Rightarrow> stopwatch" where
  "setTime v s = s\<lparr> time := v, pendingTime := None \<rparr>"


section \<open>The stopwatch operations\<close>

text \<open>
  Each operation takes the value \<open>Date.now()\<close> returns during the call where the
  source reads the clock. The calls of \<open>createParticles\<close> only touch the decorative
  state. The test \<open>if (intervalRef.current)\<close> holds for a handle other than 0:
  \<open>null\<close> and the number 0 are falsy.
\<close>

definition startStopwatch :: "int \<Rightarrow> stopwatch \<Rightarrow> stopwatch" where
  "startStopwatch now s =
     (if \<not> isRunning s then
        let s1 = s\<lparr> startTimeRef := now - time s \<rparr>;
            (h, s2) = setInterval s1
        in s2\<lparr> intervalRef := Some h, isRunning := True \<rparr>
      else s)"

definition pauseStopwatch :: "stopwatch \<Rightarrow> stopwatch" where
  "pauseStopwatch s =
     (let s1 = (case intervalRef s of
                  Some h \<Rightarrow> if h \<noteq> 0 then (clearInterval h s)\<lparr> intervalRef := None \<rparr> else s
                | None \<Rightarrow> s)
      in s1\<lparr> isRunning := False \<rparr>)"

definition resetStopwatch :: "stopwatch \<Rightarrow> stopwatch" where
  "resetStopwatch s =
     (let s1 = (case intervalRef s of
                  Some h \<Rightarrow> if h \<noteq> 0 then (clearInterval h s)\<lparr> intervalRef := None \<rparr> else s
                | None \<Rightarrow> s)
      in (setTime 0 s1)\<lparr> isRunning := False, lapTimes := [], lapCounter := 1 \<rparr>)"

definition recordLap :: "int \<Rightarrow> stopwatch \<Rightarrow> stopwatch" where
  "recordLap now s =
     (if isRunning s \<and> time s > 0 then
        let newLap = \<lparr> id_lap = now,
                       lapNumber = lapCounter s,
                       lapTime = (if length (lapTimes s) > 0
                                  then time s - totalTime (lapTimes s ! (length (lapTimes s) - 1))
                                  else time s),
                       totalTime = time s \<rparr>
        in s\<lparr> lapTimes := lapTimes s @ [newLap], lapCounter := lapCounter s + 1 \<rparr>
      else s)"

definition clearLaps :: "stopwatch \<Rightarrow> stopwatch" where
  "clearLaps s = s\<lparr> lapTimes := [], lapCounter := 1 \<rparr>"

text \<open>The cleanup of the last effect (lines 210-216), run when the component unmounts.\<close>

definition teardown :: "stopwatch \<Rightarrow> stopwatch" where
  "teardown s =
     (case intervalRef s of
        Some h \<Rightarrow> if h \<noteq> 0 then clearInterval h s else s
      | None \<Rightarrow> s)"


section \<open>Runs of the component\<close>

text \<open>
  What can happen to a mounted component: the user invokes one of the five
  operations, the browser runs the sampling callback of an interval, or React
  renders the queued sample. The events that read the clock carry the value of
  \<open>Date.now()\<close>.
\<close>

datatype event =
    Start int
  | Pause
  | Reset
  | Lap int
  | Clear
  | Fire nat int
  | Render

fun step :: "event \<Rightarrow> stopwatch \<Rightarrow> stopwatch" where
  "step (Start now) s = startStopwatch now s"
| "step Pause s = pauseStopwatch s"
| "step Reset s = resetStopwatch s"
| "step (Lap now) s = recordLap now s"
| "step Clear s = clearLaps s"
| "step (Fire h now) s = fire h now s"
| "step Render s = render s"

fun run :: "event list \<Rightarrow> stopwatch \<Rightarrow> stopwatch" where
  "run [] s = s"
| "run (e # es) s = run es (step e s)"


text \<open>
  The core state the specification speaks of: elapsed time, run state, lap history
  and lap counter.
\<close>

definition core :: "stopwatch \<Rightarrow> int \<times> bool \<times> LapTime list \<times> int" where
  "core s = (time s, isRunning s, lapTimes s, lapCounter s)"

text \<open>The clock readings of a run, in the order they are taken.\<close>

fun readings :: "event list \<Rightarrow> int list" where
  "readings [] = []"
| "readings (Start now # es) = now # readings es"
| "readings (Lap now # es) = now # readings es"
| "readings (Fire h now # es) = now # readings es"
| "readings (e # es) = readings es"

text \<open>A run in which \<open>Date.now()\<close> never steps backwards.\<close>

definition monotone_clock :: "event list \<Rightarrow> bool" where
  "monotone_clock es = sorted (readings es)"

text \<open>
  A run, from the state \<open>s\<close>, in which every start that takes effect finds the last
  sample rendered, so that the elapsed time it reads is not stale.
\<close>

fun fresh_starts :: "event list \<Rightarrow> stopwatch \<Rightarrow> bool" where
  "fresh_starts [] s = True"
| "fresh_starts (Start now # es) s =
     ((isRunning s \<or> pendingTime s = None) \<and> fresh_starts es (startStopwatch now s))"
| "fresh_starts (e # es) s = fresh_starts es (step e s)"

text \<open>The events that are not operations of the user: ticks and renders.\<close>

fun browser_event :: "event \<Rightarrow> bool" where
  "browser_event (Fire h now) = True"
| "browser_event Render = True"
| "browser_event e = False"

text \<open>
  The lap counter is one more than the number of recorded laps, and the lap at
  index \<open>i\<close> of the history (chronological, from 0) has the number \<open>i + 1\<close>.
\<close>

definition lap_numbering :: "stopwatch \<Rightarrow> bool" where
  "lap_numbering s =
     (lapCounter s = int (length (lapTimes s)) + 1
      \<and> map lapNumber (lapTimes s) = map (\<lambda>i. int i + 1) [0 ..< length (lapTimes s)])"


section \<open>Invariants of the runs\<close>

text \<open>
  The reference \<open>intervalRef\<close> and the browser's timer table agree: while the
  stopwatch runs, exactly the interval held in \<open>intervalRef\<close> is scheduled; while it
  is stopped, \<open>intervalRef\<close> is \<open>null\<close> and no sampling interval is scheduled.
\<close>

definition timers_ok :: "stopwatch \<Rightarrow> bool" where
  "timers_ok s =
     (case intervalRef s of
        None \<Rightarrow> \<not> isRunning s \<and> timers s = {}
      | Some h \<Rightarrow> isRunning s \<and> 0 < h \<and> h < nextTimer s \<and> timers s = {h})"

text \<open>Every scheduled interval, and every later one, has a handle from \<open>n\<close> on.\<close>

definition fresh_from :: "nat \<Rightarrow> stopwatch \<Rightarrow> bool" where
  "fresh_from n s = (n \<le> nextTimer s \<and> (\<forall>h \<in> timers s. n \<le> h))"

text \<open>The split times add up to the total time of the last lap.\<close>

definition splits_sum :: "stopwatch \<Rightarrow> bool" where
  "splits_sum s =
     (sum_list (map lapTime (lapTimes s)) =
        (if lapTimes s = [] then 0 else totalTime (last (lapTimes s))))"

text \<open>The last sample taken: the queued one, or else the rendered one.\<close>

definition latest :: "stopwatch \<Rightarrow> int" where
  "latest s = (case pendingTime s of None \<Rightarrow> time s | Some v \<Rightarrow> v)"

text \<open>
  With \<open>lo\<close> the latest clock reading so far: the rendered elapsed time is not
  negative and not above the last sample, a scheduled sample at \<open>lo\<close> or later does
  not fall below the last sample, and the recorded totals are in order and not
  above the rendered elapsed time.
\<close>

definition clock_inv :: "int \<Rightarrow> stopwatch \<Rightarrow> bool" where
  "clock_inv lo s =
     (0 \<le> time s
      \<and> time s \<le> latest s
      \<and> (timers s \<noteq> {} \<longrightarrow> latest s \<le> lo - startTimeRef s)
      \<and> list_all (\<lambda>l. totalTime l \<le> time s) (lapTimes s)
      \<and> sorted (map totalTime (lapTimes s)))"


section \<open>Formatting\<close>

text \<open>
  \<open>Number.prototype.toString\<close> on an integer: its decimal digits, after a minus
  sign when it is negative (for magnitudes below \<open>10^21\<close>, where JavaScript does not
  switch to exponent notation).
\<close>

definition digit_char :: "nat \<Rightarrow> char" where
  "digit_char d = char_of (48 + d)"

fun toString_nat :: "nat \<Rightarrow> string" where
  "toString_nat n =
     (if n < 10 then [digit_char n] else toString_nat (n div 10) @ [digit_char (n mod 10)])"

definition toString :: "int \<Rightarrow> string" where
  "toString k = (if k < 0 then CHR ''-'' # toString_nat (nat (- k)) else toString_nat (nat k))"

text \<open>\<open>String.prototype.padStart\<close> with a filler of one character.\<close>

definition padStart :: "nat \<Rightarrow> char \<Rightarrow> string \<Rightarrow> string" where
  "padStart n c s = replicate (n - length s) c @ s"

text \<open>
  \<open>formatTime\<close> (lines 43-51). \<open>Math.floor(a / b)\<close> on integers with \<open>b > 0\<close> is
  \<open>div\<close>, which rounds down; the operator \<open>%\<close> takes the sign of the dividend and
  is \<open>smod\<close>.
\<close>

definition formatTime :: "int \<Rightarrow> string" where
  "formatTime timeMs =
     (let minutes = timeMs div 60000;
          seconds = (timeMs smod 60000) div 1000;
          milliseconds = (timeMs smod 1000) div 10
      in padStart 2 CHR ''0'' (toString minutes) @ '':''
         @ padStart 2 CHR ''0'' (toString seconds) @ ''.''
         @ padStart 2 CHR ''0'' (toString milliseconds))"

text \<open>Reading a field of the display back: decimal digits and the number they denote.\<close>

definition is_digit :: "char \<Rightarrow> bool" where
  "is_digit c = (48 \<le> (of_char c :: nat) \<and> (of_char c :: nat) \<le> 57)"

definition digit_value :: "char \<Rightarrow> nat" where
  "digit_value c = of_char c - 48"

definition decimal_value :: "string \<Rightarrow> nat" where
  "decimal_value cs = foldl (\<lambda>a c. 10 * a + digit_value c) 0 cs"


section \<open>Properties of the runs\<close>

lemmas op_defs = startStopwatch_def pauseStopwatch_def resetStopwatch_def recordLap_def
  clearLaps_def fire_def render_def setTime_def setInterval_def clearInterval_def

lemma run_append: "run (es @ es') s = run es' (run es s)"
  by (induction es arbitrary: s) simp_all

lemma run_snoc: "run (es @ [e]) s = step e (run es s)"
  by (simp add: run_append)

subsection \<open>The timer table\<close>

lemma timers_ok_init: "timers_ok init"
  by (simp add: timers_ok_def init_def)

lemma timers_ok_step: "0 < nextTimer s \<Longrightarrow> timers_ok s \<Longrightarrow> timers_ok (step e s)"
  by (cases e) (auto simp add: timers_ok_def op_defs Let_def split: option.splits)

lemma nextTimer_step: "nextTimer s \<le> nextTimer (step e s)"
  by (cases e) (auto simp add: op_defs Let_def split: option.splits)

lemma timers_ok_run: "0 < nextTimer s \<Longrightarrow> timers_ok s \<Longrightarrow> timers_ok (run es s)"
proof (induction es arbitrary: s)
  case Nil
  then show ?case by simp
next
  case (Cons e es)
  have "0 < nextTimer (step e s)"
    using Cons.prems(1) nextTimer_step [of s e] by simp
  with Cons show ?case by (simp add: timers_ok_step)
qed

lemma timers_ok_reachable: "timers_ok (run es init)"
  by (rule timers_ok_run) (simp_all add: timers_ok_init, simp add: init_def)

lemma fresh_from_step: "fresh_from n s \<Longrightarrow> fresh_from n (step e s)"
  by (cases e) (auto simp add: fresh_from_def op_defs Let_def split: option.splits)

lemma fresh_from_run: "fresh_from n s \<Longrightarrow> fresh_from n (run es s)"
  by (induction es arbitrary: s) (simp_all add: fresh_from_step)

lemma fire_stale: "fresh_from n s \<Longrightarrow> h < n \<Longrightarrow> fire h now s = s"
  by (auto simp add: fresh_from_def fire_def)

lemma pause_cancels: "timers_ok s \<Longrightarrow> timers (pauseStopwatch s) = {} \<and> nextTimer (pauseStopwatch s) = nextTimer s"
  by (auto simp add: timers_ok_def op_defs Let_def split: option.splits)

lemma reset_cancels: "timers_ok s \<Longrightarrow> timers (resetStopwatch s) = {} \<and> nextTimer (resetStopwatch s) = nextTimer s"
  by (auto simp add: timers_ok_def op_defs Let_def split: option.splits)

lemma teardown_cancels: "timers_ok s \<Longrightarrow> timers (teardown s) = {}"
  by (auto simp add: timers_ok_def teardown_def op_defs Let_def split: option.splits)

lemma pause_stopped: "timers_ok s \<Longrightarrow> \<not> isRunning s \<Longrightarrow> pauseStopwatch s = s"
  by (auto simp add: timers_ok_def op_defs Let_def split: option.splits)

subsection \<open>The lap history\<close>

lemma lap_numbering_recordLap: "lap_numbering s \<Longrightarrow> lap_numbering (recordLap now s)"
  by (simp add: lap_numbering_def recordLap_def Let_def)

lemma lap_numbering_clearLaps: "lap_numbering (clearLaps s)"
  by (simp add: lap_numbering_def clearLaps_def)

lemma lap_numbering_resetStopwatch: "lap_numbering (resetStopwatch s)"
  by (simp add: lap_numbering_def op_defs Let_def split: option.splits)

lemma lap_numbering_step: "lap_numbering s \<Longrightarrow> lap_numbering (step e s)"
proof (cases e)
  case (Lap n)
  assume "lap_numbering s"
  with Lap show ?thesis by (simp add: lap_numbering_recordLap)
next
  case Clear
  then show ?thesis by (simp add: lap_numbering_clearLaps)
next
  case Reset
  then show ?thesis by (simp add: lap_numbering_resetStopwatch)
qed (auto simp add: lap_numbering_def op_defs Let_def split: option.splits)

lemma lap_numbering_run: "lap_numbering s \<Longrightarrow> lap_numbering (run es s)"
  by (induction es arbitrary: s) (simp_all add: lap_numbering_step)

lemma lap_numbering_init: "lap_numbering init"
  by (simp add: lap_numbering_def init_def)

lemma last_index: "xs \<noteq> [] \<Longrightarrow> xs ! (length xs - Suc 0) = last xs"
  by (simp add: last_conv_nth)

lemma recordLap_running:
  "isRunning s \<Longrightarrow> 0 < time s \<Longrightarrow>
   recordLap now s =
     s\<lparr> lapTimes := lapTimes s @
           [\<lparr> id_lap = now, lapNumber = lapCounter s,
              lapTime = time s - (if lapTimes s = [] then 0 else totalTime (last (lapTimes s))),
              totalTime = time s \<rparr>],
        lapCounter := lapCounter s + 1 \<rparr>"
  by (simp add: recordLap_def Let_def last_index)

lemma splits_sum_step: "splits_sum s \<Longrightarrow> splits_sum (step e s)"
proof (cases e)
  case (Lap n)
  assume h: "splits_sum s"
  show ?thesis
  proof (cases "isRunning s \<and> 0 < time s")
    case True
    with h show ?thesis
      unfolding Lap by (simp add: recordLap_running splits_sum_def)
  next
    case False
    then have "recordLap n s = s" by (auto simp add: recordLap_def)
    with h show ?thesis unfolding Lap by simp
  qed
qed (auto simp add: splits_sum_def op_defs Let_def split: option.splits)

lemma splits_sum_run: "splits_sum s \<Longrightarrow> splits_sum (run es s)"
  by (induction es arbitrary: s) (simp_all add: splits_sum_step)

lemma splits_sum_init: "splits_sum init"
  by (simp add: splits_sum_def init_def)


subsection \<open>The clock\<close>

lemma clock_inv_init: "clock_inv lo init"
  by (simp add: clock_inv_def latest_def init_def)

lemma clock_inv_recordLap: "clock_inv lo s \<Longrightarrow> clock_inv lo (recordLap n s)"
proof (cases "isRunning s \<and> 0 < time s")
  case True
  assume "clock_inv lo s"
  with True show ?thesis
    by (auto simp add: recordLap_running clock_inv_def latest_def sorted_append list_all_iff
        split: option.splits)
next
  case False
  then have "recordLap n s = s" by (auto simp add: recordLap_def)
  moreover assume "clock_inv lo s"
  ultimately show ?thesis by simp
qed

lemma clock_inv_later: "clock_inv lo s \<Longrightarrow> lo \<le> lo' \<Longrightarrow> clock_inv lo' s"
  by (auto simp add: clock_inv_def)

lemma clock_inv_fire: "clock_inv lo s \<Longrightarrow> lo \<le> now \<Longrightarrow> clock_inv now (fire h now s)"
proof (cases "h \<in> timers s")
  case True
  assume a: "clock_inv lo s" "lo \<le> now"
  from a True have t: "latest s \<le> now - startTimeRef s"
    by (auto simp add: clock_inv_def)
  from a have u: "time s \<le> latest s"
    by (simp add: clock_inv_def)
  from a t u True show ?thesis
    by (simp add: clock_inv_def fire_def latest_def)
next
  case False
  assume "clock_inv lo s" "lo \<le> now"
  with False show ?thesis
    by (simp add: fire_def clock_inv_later)
qed

lemma clock_inv_render: "clock_inv lo s \<Longrightarrow> clock_inv lo (render s)"
proof (cases "pendingTime s")
  case None
  assume "clock_inv lo s"
  with None show ?thesis by (simp add: render_def)
next
  case (Some v)
  assume a: "clock_inv lo s"
  with Some have v: "time s \<le> v"
    by (simp add: clock_inv_def latest_def)
  from a have "\<forall>l \<in> set (lapTimes s). totalTime l \<le> time s"
    by (simp add: clock_inv_def list_all_iff)
  with v have "\<forall>l \<in> set (lapTimes s). totalTime l \<le> v"
    by auto
  with a Some v show ?thesis
    by (simp add: clock_inv_def render_def latest_def list_all_iff)
qed

lemma clock_inv_start:
  "clock_inv lo s \<Longrightarrow> lo \<le> now \<Longrightarrow> isRunning s \<or> pendingTime s = None \<Longrightarrow>
   clock_inv now (startStopwatch now s)"
proof (cases "isRunning s")
  case True
  assume "clock_inv lo s" "lo \<le> now"
  with True show ?thesis
    by (simp add: startStopwatch_def clock_inv_later)
next
  case False
  assume "clock_inv lo s" "lo \<le> now" "isRunning s \<or> pendingTime s = None"
  with False show ?thesis
    by (simp add: clock_inv_def latest_def startStopwatch_def setInterval_def Let_def)
qed

lemma clock_inv_pause: "clock_inv lo s \<Longrightarrow> clock_inv lo (pauseStopwatch s)"
  by (auto simp add: clock_inv_def latest_def pauseStopwatch_def clearInterval_def Let_def
      split: option.splits)

lemma clock_inv_reset: "clock_inv lo s \<Longrightarrow> clock_inv lo (resetStopwatch s)"
proof -
  assume a: "clock_inv lo s"
  then have "0 \<le> latest s" by (simp add: clock_inv_def)
  with a show ?thesis
    by (auto simp add: clock_inv_def latest_def resetStopwatch_def setTime_def
        clearInterval_def Let_def split: option.splits)
qed

lemma clock_inv_clear: "clock_inv lo s \<Longrightarrow> clock_inv lo (clearLaps s)"
  by (auto simp add: clock_inv_def latest_def clearLaps_def split: option.splits)

lemma clock_inv_run:
  "clock_inv lo s \<Longrightarrow> sorted (lo # readings es) \<Longrightarrow> fresh_starts es s \<Longrightarrow>
   \<exists>lo'. clock_inv lo' (run es s)"
proof (induction es arbitrary: lo s)
  case Nil
  then show ?case by auto
next
  case (Cons e es)
  show ?case
  proof (cases e)
    case (Start n)
    with Cons.prems have "clock_inv n (step e s)" "sorted (n # readings es)"
      "fresh_starts es (step e s)"
      by (simp_all add: clock_inv_start)
    then show ?thesis using Cons.IH by simp
  next
    case Pause
    with Cons.prems have "clock_inv lo (step e s)" "sorted (lo # readings es)"
      "fresh_starts es (step e s)"
      by (simp_all add: clock_inv_pause)
    then show ?thesis using Cons.IH by simp
  next
    case Reset
    with Cons.prems have "clock_inv lo (step e s)" "sorted (lo # readings es)"
      "fresh_starts es (step e s)"
      by (simp_all add: clock_inv_reset)
    then show ?thesis using Cons.IH by simp
  next
    case (Lap n)
    with Cons.prems have "clock_inv n (step e s)" "sorted (n # readings es)"
      "fresh_starts es (step e s)"
      by (simp_all add: clock_inv_recordLap clock_inv_later)
    then show ?thesis using Cons.IH by simp
  next
    case Clear
    with Cons.prems have "clock_inv lo (step e s)" "sorted (lo # readings es)"
      "fresh_starts es (step e s)"
      by (simp_all add: clock_inv_clear)
    then show ?thesis using Cons.IH by simp
  next
    case (Fire h n)
    with Cons.prems have "clock_inv n (step e s)" "sorted (n # readings es)"
      "fresh_starts es (step e s)"
      by (simp_all add: clock_inv_fire)
    then show ?thesis using Cons.IH by simp
  next
    case Render
    with Cons.prems have "clock_inv lo (step e s)" "sorted (lo # readings es)"
      "fresh_starts es (step e s)"
      by (simp_all add: clock_inv_render)
    then show ?thesis using Cons.IH by simp
  qed
qed

lemma clock_inv_reachable:
  assumes "monotone_clock es" and "fresh_starts es init"
  shows "\<exists>lo. clock_inv lo (run es init)"
proof (cases "readings es")
  case Nil
  then have "sorted (0 # readings es)" by simp
  with clock_inv_init [of 0] show ?thesis using assms(2) by (rule clock_inv_run)
next
  case (Cons r rs)
  with assms(1) have "sorted (r # readings es)"
    by (simp add: monotone_clock_def)
  with clock_inv_init [of r] show ?thesis using assms(2) by (rule clock_inv_run)
qed

subsection \<open>Ticks and renders\<close>

lemma fires_sample:
  "h \<in> timers s \<Longrightarrow> ns \<noteq> [] \<Longrightarrow>
   run (map (Fire h) ns) s = s\<lparr> pendingTime := Some (last ns - startTimeRef s) \<rparr>"
proof (induction ns arbitrary: s)
  case Nil
  then show ?case by simp
next
  case (Cons n ns)
  show ?case
  proof (cases "ns = []")
    case True
    with Cons.prems show ?thesis by (simp add: fire_def)
  next
    case False
    have "h \<in> timers (fire h n s)" using Cons.prems by (simp add: fire_def)
    with False Cons.IH [of "fire h n s"] Cons.prems show ?thesis
      by (simp add: fire_def)
  qed
qed

lemma start_sets_origin:
  "\<not> isRunning s \<Longrightarrow> ns \<noteq> [] \<Longrightarrow>
   time (run (map (Fire (nextTimer s)) ns @ [Render]) (startStopwatch now0 s))
     = last ns - now0 + time s"
proof -
  assume n: "\<not> isRunning s" and e: "ns \<noteq> []"
  from n have h: "nextTimer s \<in> timers (startStopwatch now0 s)"
    and o: "startTimeRef (startStopwatch now0 s) = now0 - time s"
    by (simp_all add: startStopwatch_def setInterval_def Let_def)
  show ?thesis
    using fires_sample [OF h e] o by (simp add: run_append render_def)
qed

lemma idle_quiet:
  "timers s = {} \<Longrightarrow> pendingTime s = None \<Longrightarrow> list_all browser_event es \<Longrightarrow> run es s = s"
proof (induction es)
  case Nil
  then show ?case by simp
next
  case (Cons e es)
  from Cons.prems have "step e s = s"
    by (cases e) (simp_all add: fire_def render_def)
  with Cons show ?case by simp
qed

lemma idle_renders_once:
  "timers s = {} \<Longrightarrow> list_all browser_event es \<Longrightarrow> run es s = s \<or> run es s = render s"
proof (induction es)
  case Nil
  then show ?case by simp
next
  case (Cons e es)
  show ?case
  proof (cases e)
    case (Fire h n)
    with Cons.prems have "step e s = s" by (simp add: fire_def)
    with Cons show ?thesis by simp
  next
    case Render
    have "timers (render s) = {}" "pendingTime (render s) = None"
      using Cons.prems(1) by (simp_all add: render_def split: option.splits)
    then have "run es (render s) = render s"
      using Cons.prems(2) by (simp add: idle_quiet)
    with Render show ?thesis by simp
  qed (use Cons.prems in simp_all)
qed

lemmas run_defs = init_def startStopwatch_def pauseStopwatch_def resetStopwatch_def
  recordLap_def clearLaps_def fire_def render_def setTime_def setInterval_def
  clearInterval_def Let_def


section \<open>Properties of the formatting\<close>

declare toString_nat.simps [simp del]

lemma digit_value_digit_char: "d < 10 \<Longrightarrow> digit_value (digit_char d) = d"
  by (simp add: digit_value_def digit_char_def)

lemma is_digit_digit_char: "d < 10 \<Longrightarrow> is_digit (digit_char d)"
  by (simp add: is_digit_def digit_char_def)

lemma digit_char_0: "digit_char 0 = CHR ''0''"
  by code_simp

lemma digit_char_eq_0: "d < 10 \<Longrightarrow> digit_char d = CHR ''0'' \<Longrightarrow> d = 0"
  using digit_value_digit_char [of d] digit_value_digit_char [of 0]
  by (simp add: digit_char_0)

lemma decimal_value_snoc: "decimal_value (cs @ [c]) = 10 * decimal_value cs + digit_value c"
  by (simp add: decimal_value_def)

lemma decimal_value_single: "decimal_value [c] = digit_value c"
  by (simp add: decimal_value_def)

lemma decimal_value_zeros: "decimal_value (replicate k CHR ''0'' @ cs) = decimal_value cs"
proof -
  have z: "digit_value CHR ''0'' = 0"
    by (simp add: digit_value_def)
  have "foldl (\<lambda>a c. 10 * a + digit_value c) 0 (replicate k CHR ''0'') = 0"
    by (induction k) (simp_all add: z)
  then show ?thesis
    by (simp add: decimal_value_def)
qed

lemma toString_nat_value: "decimal_value (toString_nat n) = n"
proof (induction n rule: toString_nat.induct)
  case (1 n)
  show ?case
  proof (cases "n < 10")
    case True
    then show ?thesis
      by (simp add: toString_nat.simps [of n] decimal_value_single digit_value_digit_char)
  next
    case False
    with 1 show ?thesis
      by (simp add: toString_nat.simps [of n] decimal_value_snoc digit_value_digit_char)
  qed
qed

lemma toString_nat_digits: "list_all is_digit (toString_nat n)"
proof (induction n rule: toString_nat.induct)
  case (1 n)
  show ?case
  proof (cases "n < 10")
    case True
    then show ?thesis
      by (simp add: toString_nat.simps [of n] is_digit_digit_char)
  next
    case False
    with 1 show ?thesis
      by (simp add: toString_nat.simps [of n] is_digit_digit_char)
  qed
qed

lemma toString_nat_length_1: "n < 10 \<Longrightarrow> length (toString_nat n) = 1"
  by (simp add: toString_nat.simps [of n])

lemma toString_nat_length_2: "10 \<le> n \<Longrightarrow> n < 100 \<Longrightarrow> length (toString_nat n) = 2"
  by (simp add: toString_nat.simps [of n] toString_nat_length_1)

lemma toString_nat_length_3: "100 \<le> n \<Longrightarrow> 3 \<le> length (toString_nat n)"
proof -
  assume h: "100 \<le> n"
  have "length (toString_nat (n div 10)) \<ge> 2"
  proof (cases "n div 10 < 100")
    case True
    with h show ?thesis by (simp add: toString_nat_length_2)
  next
    case False
    then have "\<not> n div 10 < 10" by simp
    then have "length (toString_nat (n div 10)) = Suc (length (toString_nat (n div 10 div 10)))"
      by (simp add: toString_nat.simps [of "n div 10"])
    moreover have "\<not> n div 10 div 10 < 10" using False by simp
    then have "length (toString_nat (n div 10 div 10)) = Suc (length (toString_nat (n div 10 div 10 div 10)))"
      by (simp add: toString_nat.simps [of "n div 10 div 10"])
    ultimately show ?thesis by simp
  qed
  with h show ?thesis
    by (simp add: toString_nat.simps [of n])
qed

lemma toString_nat_nonempty: "toString_nat n \<noteq> []"
  by (simp add: toString_nat.simps [of n])

lemma toString_nat_no_leading_zero: "0 < n \<Longrightarrow> hd (toString_nat n) \<noteq> CHR ''0''"
proof (induction n rule: toString_nat.induct)
  case (1 n)
  show ?case
  proof (cases "n < 10")
    case True
    with 1(2) show ?thesis
      using digit_char_eq_0 [of n] by (auto simp add: toString_nat.simps [of n])
  next
    case False
    then have "0 < n div 10" by simp
    with 1(1) False have "hd (toString_nat (n div 10)) \<noteq> CHR ''0''" by simp
    with False show ?thesis
      by (simp add: toString_nat.simps [of n] toString_nat_nonempty)
  qed
qed

lemma smod_nonneg: "(0::int) \<le> a \<Longrightarrow> a smod b = a mod \<bar>b\<bar>"
  by (cases "a = 0") (simp_all add: smod_int_alt_def)

lemma toString_int: "toString (int n) = toString_nat n"
  by (simp add: toString_def)

lemma pad2_field:
  assumes "v < 100"
  shows "length (padStart 2 CHR ''0'' (toString_nat v)) = 2
       \<and> list_all is_digit (padStart 2 CHR ''0'' (toString_nat v))
       \<and> decimal_value (padStart 2 CHR ''0'' (toString_nat v)) = v"
proof -
  have z: "is_digit CHR ''0''" by (simp add: is_digit_def)
  have "length (toString_nat v) = 1 \<or> length (toString_nat v) = 2"
    using assms toString_nat_length_1 [of v] toString_nat_length_2 [of v] by (cases "v < 10") simp_all
  then have "length (padStart 2 CHR ''0'' (toString_nat v)) = 2"
    by (auto simp add: padStart_def)
  moreover have "list_all is_digit (padStart 2 CHR ''0'' (toString_nat v))"
    using toString_nat_digits [of v] z by (auto simp add: padStart_def list_all_iff)
  moreover have "decimal_value (padStart 2 CHR ''0'' (toString_nat v)) = v"
    by (simp add: padStart_def decimal_value_zeros toString_nat_value)
  ultimately show ?thesis by simp
qed

lemma formatTime_nat:
  "formatTime (int t) =
     padStart 2 CHR ''0'' (toString_nat (t div 60000)) @ '':''
     @ padStart 2 CHR ''0'' (toString_nat (t mod 60000 div 1000)) @ ''.''
     @ padStart 2 CHR ''0'' (toString_nat (t mod 1000 div 10))"
proof -
  have m: "int t div 60000 = int (t div 60000)" by (simp add: zdiv_int)
  have s: "(int t smod 60000) div 1000 = int (t mod 60000 div 1000)"
    by (simp add: smod_nonneg zdiv_int zmod_int)
  have c: "(int t smod 1000) div 10 = int (t mod 1000 div 10)"
    by (simp add: smod_nonneg zdiv_int zmod_int)
  show ?thesis
    unfolding formatTime_def Let_def m s c toString_int by (rule refl)
qed

lemma minutes_field:
  "2 \<le> length (padStart 2 CHR ''0'' (toString_nat m))
   \<and> list_all is_digit (padStart 2 CHR ''0'' (toString_nat m))
   \<and> decimal_value (padStart 2 CHR ''0'' (toString_nat m)) = m
   \<and> (m < 100 \<longrightarrow> length (padStart 2 CHR ''0'' (toString_nat m)) = 2)
   \<and> (100 \<le> m \<longrightarrow> padStart 2 CHR ''0'' (toString_nat m) = toString_nat m
                      \<and> hd (toString_nat m) \<noteq> CHR ''0'')"
proof (cases "m < 100")
  case True
  then show ?thesis using pad2_field [of m] by simp
next
  case False
  then have l: "3 \<le> length (toString_nat m)" by (simp add: toString_nat_length_3)
  then have p: "padStart 2 CHR ''0'' (toString_nat m) = toString_nat m"
    by (simp add: padStart_def)
  from False have "0 < m" by simp
  then have "hd (toString_nat m) \<noteq> CHR ''0''" by (rule toString_nat_no_leading_zero)
  with False l show ?thesis
    unfolding p by (simp add: toString_nat_digits toString_nat_value)
qed


section \<open>The stopwatch\<close>

text \<open>
  C1: in every state reached from the initial one by start, pause, reset, lap and
  clear operations, sampling ticks and renders, whenever the lap history is not
  empty, the split times of all its entries add up to the total time of its last
  entry. The total times are in non-decreasing order in the runs in which the
  clock readings never decrease and every start that takes effect finds the last
  sample rendered.
\<close>

theorem lap_history_sorted_and_summed:
  "(monotone_clock es \<and> fresh_starts es init \<longrightarrow>
      sorted (map totalTime (lapTimes (run es init))))
   \<and> (lapTimes (run es init) \<noteq> [] \<longrightarrow>
        sum_list (map lapTime (lapTimes (run es init)))
          = totalTime (last (lapTimes (run es init))))"
proof -
  have "splits_sum (run es init)"
    by (rule splits_sum_run) (rule splits_sum_init)
  then have s: "lapTimes (run es init) \<noteq> [] \<longrightarrow>
        sum_list (map lapTime (lapTimes (run es init)))
          = totalTime (last (lapTimes (run es init)))"
    by (simp add: splits_sum_def)
  have "monotone_clock es \<and> fresh_starts es init \<longrightarrow>
      sorted (map totalTime (lapTimes (run es init)))"
    using clock_inv_reachable [of es] by (auto simp add: clock_inv_def)
  with s show ?thesis by simp
qed

theorem lap_history_sorted_and_summed_witness:
  "monotone_clock [Start 5, Fire 1 1005, Render, Lap 1006, Fire 1 2505, Pause, Render,
                   Start 3000, Fire 2 3100, Render, Lap 3100]
   \<and> fresh_starts [Start 5, Fire 1 1005, Render, Lap 1006, Fire 1 2505, Pause, Render,
                   Start 3000, Fire 2 3100, Render, Lap 3100] init
   \<and> map totalTime (lapTimes (run [Start 5, Fire 1 1005, Render, Lap 1006, Fire 1 2505, Pause,
                                    Render, Start 3000, Fire 2 3100, Render, Lap 3100] init))
       = [1000, 2600]
   \<and> sorted (map totalTime (lapTimes (run [Start 5, Fire 1 1005, Render, Lap 1006, Fire 1 2505,
                                    Pause, Render, Start 3000, Fire 2 3100, Render, Lap 3100] init)))
   \<and> sum_list (map lapTime (lapTimes (run [Start 5, Fire 1 1005, Render, Lap 1006, Fire 1 2505,
                                    Pause, Render, Start 3000, Fire 2 3100, Render, Lap 3100] init)))
       = 2600"
  using lap_history_sorted_and_summed
    [of "[Start 5, Fire 1 1005, Render, Lap 1006, Fire 1 2505, Pause, Render,
          Start 3000, Fire 2 3100, Render, Lap 3100]"]
  by (simp add: monotone_clock_def run_defs)

text \<open>
  The order of the total times is not strict: two laps recorded with no rendered
  tick between them have the same total time. It is not even non-decreasing when a
  start reads a stale elapsed time (the sample 1200 is queued when the stopwatch is
  paused and started again, and the next lap is taken at 1000), or when the clock
  steps back.
\<close>

theorem lap_history_order_counterexample:
  "(monotone_clock [Start 0, Fire 1 1000, Render, Lap 1000, Lap 1000]
    \<and> fresh_starts [Start 0, Fire 1 1000, Render, Lap 1000, Lap 1000] init
    \<and> map totalTime (lapTimes (run [Start 0, Fire 1 1000, Render, Lap 1000, Lap 1000] init))
        = [1000, 1000]
    \<and> \<not> sorted_wrt (<)
          (map totalTime (lapTimes (run [Start 0, Fire 1 1000, Render, Lap 1000, Lap 1000] init))))
   \<and> (monotone_clock [Start 2, Fire 1 992, Render, Fire 1 1202, Pause, Start 1202, Render,
                      Lap 1203, Fire 2 1212, Render, Lap 1213]
      \<and> map totalTime (lapTimes (run [Start 2, Fire 1 992, Render, Fire 1 1202, Pause, Start 1202,
                                       Render, Lap 1203, Fire 2 1212, Render, Lap 1213] init))
          = [1200, 1000]
      \<and> map lapTime (lapTimes (run [Start 2, Fire 1 992, Render, Fire 1 1202, Pause, Start 1202,
                                     Render, Lap 1203, Fire 2 1212, Render, Lap 1213] init))
          = [1200, - 200]
      \<and> \<not> sorted_wrt (<)
            (map totalTime (lapTimes (run [Start 2, Fire 1 992, Render, Fire 1 1202, Pause,
                 Start 1202, Render, Lap 1203, Fire 2 1212, Render, Lap 1213] init)))
      \<and> \<not> sorted
            (map totalTime (lapTimes (run [Start 2, Fire 1 992, Render, Fire 1 1202, Pause,
                 Start 1202, Render, Lap 1203, Fire 2 1212, Render, Lap 1213] init))))
   \<and> (fresh_starts [Start 0, Fire 1 1000, Render, Lap 1000, Fire 1 500, Render, Lap 500] init
      \<and> map totalTime (lapTimes (run [Start 0, Fire 1 1000, Render, Lap 1000, Fire 1 500, Render,
                                       Lap 500] init))
          = [1000, 500]
      \<and> \<not> sorted_wrt (<)
            (map totalTime (lapTimes (run [Start 0, Fire 1 1000, Render, Lap 1000, Fire 1 500,
                 Render, Lap 500] init)))
      \<and> \<not> sorted
            (map totalTime (lapTimes (run [Start 0, Fire 1 1000, Render, Lap 1000, Fire 1 500,
                 Render, Lap 500] init))))"
  by (simp add: monotone_clock_def run_defs)

text \<open>
  C2: in a reachable state in which the stopwatch runs and the elapsed time is
  positive, \<open>recordLap\<close> appends exactly one entry: its lap number is the previous
  number of entries plus 1, its total time is the elapsed time, and its split time
  is the elapsed time minus the total time of the last entry (minus 0 for an empty
  history). Three laps taken at 1000, 2500 and 4000 ms have the split times
  1000, 1500, 1500 and the numbers 1, 2, 3.
\<close>

theorem recordLap_appends:
  "(isRunning (run es init) \<and> 0 < time (run es init) \<longrightarrow>
      lapTimes (recordLap now (run es init)) =
        lapTimes (run es init) @
          [\<lparr> id_lap = now,
             lapNumber = int (length (lapTimes (run es init))) + 1,
             lapTime = time (run es init) -
               (if lapTimes (run es init) = [] then 0
                else totalTime (last (lapTimes (run es init)))),
             totalTime = time (run es init) \<rparr>])
   \<and> map lapTime (lapTimes (run [Start t0, Fire 1 (t0 + 1000), Render, Lap a,
                                  Fire 1 (t0 + 2500), Render, Lap b,
                                  Fire 1 (t0 + 4000), Render, Lap c] init)) = [1000, 1500, 1500]
   \<and> map lapNumber (lapTimes (run [Start t0, Fire 1 (t0 + 1000), Render, Lap a,
                                  Fire 1 (t0 + 2500), Render, Lap b,
                                  Fire 1 (t0 + 4000), Render, Lap c] init)) = [1, 2, 3]
   \<and> map totalTime (lapTimes (run [Start t0, Fire 1 (t0 + 1000), Render, Lap a,
                                  Fire 1 (t0 + 2500), Render, Lap b,
                                  Fire 1 (t0 + 4000), Render, Lap c] init)) = [1000, 2500, 4000]"
proof -
  have "lap_numbering (run es init)"
    by (rule lap_numbering_run) (rule lap_numbering_init)
  then have c: "lapCounter (run es init) = int (length (lapTimes (run es init))) + 1"
    by (simp add: lap_numbering_def)
  have g: "isRunning (run es init) \<and> 0 < time (run es init) \<longrightarrow>
      lapTimes (recordLap now (run es init)) =
        lapTimes (run es init) @
          [\<lparr> id_lap = now,
             lapNumber = int (length (lapTimes (run es init))) + 1,
             lapTime = time (run es init) -
               (if lapTimes (run es init) = [] then 0
                else totalTime (last (lapTimes (run es init)))),
             totalTime = time (run es init) \<rparr>]"
    using c by (simp add: recordLap_running)
  have e: "lapTimes (run [Start t0, Fire 1 (t0 + 1000), Render, Lap a,
                          Fire 1 (t0 + 2500), Render, Lap b,
                          Fire 1 (t0 + 4000), Render, Lap c] init) =
     [\<lparr> id_lap = a, lapNumber = 1, lapTime = 1000, totalTime = 1000 \<rparr>,
      \<lparr> id_lap = b, lapNumber = 2, lapTime = 1500, totalTime = 2500 \<rparr>,
      \<lparr> id_lap = c, lapNumber = 3, lapTime = 1500, totalTime = 4000 \<rparr>]"
    by (simp add: run_defs)
  show ?thesis
    unfolding e using g by simp
qed

theorem recordLap_appends_witness:
  "isRunning (run [Start 3, Fire 1 10, Render, Lap 11, Fire 1 25, Render] init)
   \<and> 0 < time (run [Start 3, Fire 1 10, Render, Lap 11, Fire 1 25, Render] init)
   \<and> lapTimes (recordLap 26 (run [Start 3, Fire 1 10, Render, Lap 11, Fire 1 25, Render] init)) =
       [\<lparr> id_lap = 11, lapNumber = 1, lapTime = 7, totalTime = 7 \<rparr>,
        \<lparr> id_lap = 26, lapNumber = 2, lapTime = 15, totalTime = 22 \<rparr>]"
  using recordLap_appends [of "[Start 3, Fire 1 10, Render, Lap 11, Fire 1 25, Render]" 26]
  by (simp add: run_defs)

text \<open>
  C3: for every millisecond count \<open>t \<ge> 0\<close>, \<open>formatTime t\<close> is \<open>MM:SS.CC\<close>, where
  all three fields are decimal digits, \<open>SS\<close> and \<open>CC\<close> have two digits, \<open>MM\<close> has
  two digits up to 99 minutes and more, without a leading zero, from 100 minutes
  on, and the fields denote \<open>t div 60000\<close>, \<open>(t mod 60000) div 1000\<close> and
  \<open>(t mod 1000) div 10\<close>, each rounded down. In particular 61005 is shown as
  \<open>01:01.00\<close> and 999 as \<open>00:00.99\<close>.
\<close>

theorem formatTime_fields:
  "(\<exists>mm ss cc.
      formatTime (int t) = mm @ '':'' @ ss @ ''.'' @ cc
      \<and> list_all is_digit mm \<and> list_all is_digit ss \<and> list_all is_digit cc
      \<and> 2 \<le> length mm \<and> length ss = 2 \<and> length cc = 2
      \<and> (t div 60000 < 100 \<longrightarrow> length mm = 2)
      \<and> (100 \<le> t div 60000 \<longrightarrow> hd mm \<noteq> CHR ''0'')
      \<and> decimal_value mm = t div 60000
      \<and> decimal_value ss = t mod 60000 div 1000
      \<and> decimal_value cc = t mod 1000 div 10)
   \<and> formatTime 61005 = ''01:01.00''
   \<and> formatTime 999 = ''00:00.99''"
proof -
  let ?mm = "padStart 2 CHR ''0'' (toString_nat (t div 60000))"
  let ?ss = "padStart 2 CHR ''0'' (toString_nat (t mod 60000 div 1000))"
  let ?cc = "padStart 2 CHR ''0'' (toString_nat (t mod 1000 div 10))"
  have s: "t mod 60000 div 1000 < 100"
    by (simp add: less_mult_imp_div_less)
  have c: "t mod 1000 div 10 < 100"
    by (simp add: less_mult_imp_div_less)
  have "formatTime (int t) = ?mm @ '':'' @ ?ss @ ''.'' @ ?cc"
    by (rule formatTime_nat)
  moreover note minutes_field [of "t div 60000"] pad2_field [OF s] pad2_field [OF c]
  ultimately have
    "formatTime (int t) = ?mm @ '':'' @ ?ss @ ''.'' @ ?cc
      \<and> list_all is_digit ?mm \<and> list_all is_digit ?ss \<and> list_all is_digit ?cc
      \<and> 2 \<le> length ?mm \<and> length ?ss = 2 \<and> length ?cc = 2
      \<and> (t div 60000 < 100 \<longrightarrow> length ?mm = 2)
      \<and> (100 \<le> t div 60000 \<longrightarrow> hd ?mm \<noteq> CHR ''0'')
      \<and> decimal_value ?mm = t div 60000
      \<and> decimal_value ?ss = t mod 60000 div 1000
      \<and> decimal_value ?cc = t mod 1000 div 10"
    by simp
  then have ex: "\<exists>mm ss cc.
      formatTime (int t) = mm @ '':'' @ ss @ ''.'' @ cc
      \<and> list_all is_digit mm \<and> list_all is_digit ss \<and> list_all is_digit cc
      \<and> 2 \<le> length mm \<and> length ss = 2 \<and> length cc = 2
      \<and> (t div 60000 < 100 \<longrightarrow> length mm = 2)
      \<and> (100 \<le> t div 60000 \<longrightarrow> hd mm \<noteq> CHR ''0'')
      \<and> decimal_value mm = t div 60000
      \<and> decimal_value ss = t mod 60000 div 1000
      \<and> decimal_value cc = t mod 1000 div 10"
    by blast
  have e1: "formatTime 61005 = ''01:01.00''" by code_simp
  have e2: "formatTime 999 = ''00:00.99''" by code_simp
  from ex e1 e2 show ?thesis by simp
qed

theorem formatTime_fields_witness:
  "(61005::nat) div 60000 < 100
   \<and> 100 \<le> (6000000::nat) div 60000
   \<and> formatTime 6000000 = ''100:00.00''
   \<and> (\<exists>mm ss cc. formatTime (int 6000000) = mm @ '':'' @ ss @ ''.'' @ cc
         \<and> hd mm \<noteq> CHR ''0'' \<and> decimal_value mm = 100
         \<and> decimal_value ss = 0 \<and> decimal_value cc = 0)
   \<and> (\<exists>mm ss cc. formatTime (int 61005) = mm @ '':'' @ ss @ ''.'' @ cc
         \<and> length mm = 2 \<and> decimal_value mm = 1
         \<and> decimal_value ss = 1 \<and> decimal_value cc = 0)"
proof -
  have a: "formatTime 6000000 = ''100:00.00''"
    by code_simp
  have b: "\<exists>mm ss cc. formatTime (int 6000000) = mm @ '':'' @ ss @ ''.'' @ cc
         \<and> hd mm \<noteq> CHR ''0'' \<and> decimal_value mm = 100
         \<and> decimal_value ss = 0 \<and> decimal_value cc = 0"
  proof -
    from formatTime_fields [of 6000000] obtain mm ss cc where
      "formatTime (int 6000000) = mm @ '':'' @ ss @ ''.'' @ cc"
      "100 \<le> (6000000::nat) div 60000 \<longrightarrow> hd mm \<noteq> CHR ''0''"
      "decimal_value mm = 6000000 div 60000"
      "decimal_value ss = 6000000 mod 60000 div 1000"
      "decimal_value cc = 6000000 mod 1000 div 10"
      by (elim conjE exE)
    then have "formatTime (int 6000000) = mm @ '':'' @ ss @ ''.'' @ cc
         \<and> hd mm \<noteq> CHR ''0'' \<and> decimal_value mm = 100
         \<and> decimal_value ss = 0 \<and> decimal_value cc = 0"
      by simp
    then show ?thesis by (intro exI)
  qed
  have c: "\<exists>mm ss cc. formatTime (int 61005) = mm @ '':'' @ ss @ ''.'' @ cc
         \<and> length mm = 2 \<and> decimal_value mm = 1
         \<and> decimal_value ss = 1 \<and> decimal_value cc = 0"
  proof -
    from formatTime_fields [of 61005] obtain mm ss cc where
      "formatTime (int 61005) = mm @ '':'' @ ss @ ''.'' @ cc"
      "(61005::nat) div 60000 < 100 \<longrightarrow> length mm = 2"
      "decimal_value mm = 61005 div 60000"
      "decimal_value ss = 61005 mod 60000 div 1000"
      "decimal_value cc = 61005 mod 1000 div 10"
      by (elim conjE exE)
    then have "formatTime (int 61005) = mm @ '':'' @ ss @ ''.'' @ cc
         \<and> length mm = 2 \<and> decimal_value mm = 1
         \<and> decimal_value ss = 1 \<and> decimal_value cc = 0"
      by simp
    then show ?thesis by (intro exI)
  qed
  have d: "(61005::nat) div 60000 < 100" by simp
  have e: "100 \<le> (6000000::nat) div 60000" by simp
  show ?thesis
    by (intro conjI) (rule a b c d e)+
qed

text \<open>
  C4: \<open>startStopwatch\<close> takes the accumulated time from the elapsed time of the
  last render, not from the last sample. In the run below the clock never steps
  back; the tick at 1202 takes the sample 1200, which is still queued when the
  stopwatch is paused and started again at 1202. The start reads the stale 990 and
  sets the origin to 212 instead of 2. The queued sample is rendered, and the
  elapsed time is 1200; the tick at 1212 then gives 1000: the restart has not kept
  the accumulated time, and the elapsed time has gone back by 200 ms while the
  stopwatch ran for 10 ms more.
\<close>

theorem restart_reads_stale_elapsed_time:
  "monotone_clock [Start 2, Fire 1 992, Render, Fire 1 1202, Pause, Start 1202, Render,
                   Fire 2 1212, Render]
   \<and> time (run [Start 2, Fire 1 992, Render, Fire 1 1202, Pause] init) = 990
   \<and> latest (run [Start 2, Fire 1 992, Render, Fire 1 1202, Pause] init) = 1200
   \<and> startTimeRef (run [Start 2, Fire 1 992, Render, Fire 1 1202, Pause, Start 1202] init) = 212
   \<and> time (run [Start 2, Fire 1 992, Render, Fire 1 1202, Pause, Start 1202, Render] init) = 1200
   \<and> time (run [Start 2, Fire 1 992, Render, Fire 1 1202, Pause, Start 1202, Render,
                 Fire 2 1212, Render] init) = 1000"
  by (simp add: monotone_clock_def latest_def run_defs)

text \<open>
  C5: \<open>resetStopwatch\<close>, in any state, leaves the stopwatch stopped with elapsed
  time 0 and an empty lap history; from a reachable state the result is the initial
  state, up to the stale origin and the next timer handle. After a later start the
  first recorded lap has the number 1, and in every continuation the laps are
  numbered from 1.
\<close>

theorem reset_gives_fresh_instance:
  "isRunning (resetStopwatch s) = False
   \<and> time (resetStopwatch s) = 0
   \<and> lapTimes (resetStopwatch s) = []
   \<and> resetStopwatch (run es init) =
        init\<lparr> startTimeRef := startTimeRef (run es init), nextTimer := nextTimer (run es init) \<rparr>
   \<and> (now0 < now1 \<longrightarrow>
        lapTimes (run [Start now0, Fire (nextTimer s) now1, Render, Lap n] (resetStopwatch s)) =
          [\<lparr> id_lap = n, lapNumber = 1, lapTime = now1 - now0, totalTime = now1 - now0 \<rparr>])
   \<and> map lapNumber (lapTimes (run es' (resetStopwatch s))) =
        map (\<lambda>i. int i + 1) [0 ..< length (lapTimes (run es' (resetStopwatch s)))]"
proof -
  have a: "isRunning (resetStopwatch s) = False \<and> time (resetStopwatch s) = 0
           \<and> lapTimes (resetStopwatch s) = []"
    by (simp add: resetStopwatch_def setTime_def clearInterval_def Let_def split: option.splits)
  have "timers_ok (run es init)" by (rule timers_ok_reachable)
  then have b: "resetStopwatch (run es init) =
        init\<lparr> startTimeRef := startTimeRef (run es init), nextTimer := nextTimer (run es init) \<rparr>"
    by (auto simp add: timers_ok_def init_def resetStopwatch_def setTime_def clearInterval_def
        Let_def split: option.splits)
  have c: "now0 < now1 \<longrightarrow>
        lapTimes (run [Start now0, Fire (nextTimer s) now1, Render, Lap n] (resetStopwatch s)) =
          [\<lparr> id_lap = n, lapNumber = 1, lapTime = now1 - now0, totalTime = now1 - now0 \<rparr>]"
    by (simp add: run_defs split: option.splits)
  have "lap_numbering (run es' (resetStopwatch s))"
    by (rule lap_numbering_run) (rule lap_numbering_resetStopwatch)
  then have d: "map lapNumber (lapTimes (run es' (resetStopwatch s))) =
        map (\<lambda>i. int i + 1) [0 ..< length (lapTimes (run es' (resetStopwatch s)))]"
    by (simp add: lap_numbering_def)
  from a b c d show ?thesis by simp
qed

theorem reset_gives_fresh_instance_witness:
  "(0::int) < 40
   \<and> isRunning (run [Start 10, Fire 1 20, Render, Lap 21, Fire 1 30, Render, Lap 31,
                     Fire 1 35] init)
   \<and> lapTimes (run [Start 0, Fire 2 40, Render, Lap 41]
        (resetStopwatch (run [Start 10, Fire 1 20, Render, Lap 21, Fire 1 30, Render, Lap 31,
                              Fire 1 35] init))) =
        [\<lparr> id_lap = 41, lapNumber = 1, lapTime = 40, totalTime = 40 \<rparr>]"
  using reset_gives_fresh_instance
    [of "run [Start 10, Fire 1 20, Render, Lap 21, Fire 1 30, Render, Lap 31, Fire 1 35] init"
        "[]" 0 40 41 "[]"]
  by (simp add: run_defs)

text \<open>
  C6: an operation called when its precondition does not hold changes nothing:
  \<open>recordLap\<close> while stopped, \<open>recordLap\<close> with no elapsed time, and
  \<open>startStopwatch\<close> while running return the state they were given;
  \<open>pauseStopwatch\<close> while stopped leaves the core state (elapsed time, run state,
  lap history, lap counter) as it is, and in a reachable state the whole state.
\<close>

theorem invalid_calls_are_no_ops:
  "(\<not> isRunning s \<longrightarrow> recordLap now s = s)
   \<and> (time s \<le> 0 \<longrightarrow> recordLap now s = s)
   \<and> (isRunning s \<longrightarrow> startStopwatch now s = s)
   \<and> (\<not> isRunning s \<longrightarrow> core (pauseStopwatch s) = core s)
   \<and> (\<not> isRunning (run es init) \<longrightarrow> pauseStopwatch (run es init) = run es init)"
proof -
  have a: "\<not> isRunning s \<longrightarrow> recordLap now s = s"
    by (simp add: recordLap_def)
  have b: "time s \<le> 0 \<longrightarrow> recordLap now s = s"
    by (simp add: recordLap_def)
  have c: "isRunning s \<longrightarrow> startStopwatch now s = s"
    by (simp add: startStopwatch_def)
  have d: "\<not> isRunning s \<longrightarrow> core (pauseStopwatch s) = core s"
    by (simp add: core_def pauseStopwatch_def clearInterval_def Let_def split: option.splits)
  have e: "\<not> isRunning (run es init) \<longrightarrow> pauseStopwatch (run es init) = run es init"
    using timers_ok_reachable [of es] by (simp add: pause_stopped)
  from a b c d e show ?thesis by simp
qed

theorem invalid_calls_are_no_ops_witness:
  "\<not> isRunning (run [Start 0, Fire 1 50, Render, Lap 51, Pause] init)
   \<and> recordLap 60 (run [Start 0, Fire 1 50, Render, Lap 51, Pause] init)
       = run [Start 0, Fire 1 50, Render, Lap 51, Pause] init
   \<and> pauseStopwatch (run [Start 0, Fire 1 50, Render, Lap 51, Pause] init)
       = run [Start 0, Fire 1 50, Render, Lap 51, Pause] init
   \<and> isRunning (run [Start 0] init) \<and> time (run [Start 0] init) \<le> 0
   \<and> recordLap 1 (run [Start 0] init) = run [Start 0] init
   \<and> startStopwatch 1 (run [Start 0] init) = run [Start 0] init"
  using invalid_calls_are_no_ops [of "run [Start 0, Fire 1 50, Render, Lap 51, Pause] init" 60
      "[Start 0, Fire 1 50, Render, Lap 51, Pause]"]
    invalid_calls_are_no_ops [of "run [Start 0] init" 1 "[]"]
  by (simp add: run_defs)

text \<open>
  C7: \<open>clearLaps\<close> empties the lap history and sets the lap counter back, so that
  the next lap that is recorded has the number 1; the run state and the elapsed
  time (and the queued sample, the origin and the scheduled interval the running
  clock depends on) are what they were before the call.
\<close>

theorem clearLaps_frame:
  "lapTimes (clearLaps s) = []
   \<and> isRunning (clearLaps s) = isRunning s
   \<and> time (clearLaps s) = time s
   \<and> pendingTime (clearLaps s) = pendingTime s
   \<and> startTimeRef (clearLaps s) = startTimeRef s
   \<and> intervalRef (clearLaps s) = intervalRef s
   \<and> timers (clearLaps s) = timers s
   \<and> (isRunning s \<and> time s > 0 \<longrightarrow>
        map lapNumber (lapTimes (recordLap now (clearLaps s))) = [1])"
  by (simp add: clearLaps_def recordLap_def Let_def)

theorem clearLaps_frame_witness:
  "isRunning (run [Start 0, Fire 1 50, Render, Lap 51, Fire 1 70, Render, Lap 71] init)
   \<and> time (run [Start 0, Fire 1 50, Render, Lap 51, Fire 1 70, Render, Lap 71] init) > 0
   \<and> map lapNumber (lapTimes (run [Start 0, Fire 1 50, Render, Lap 51, Fire 1 70, Render,
                                    Lap 71] init)) = [1, 2]
   \<and> lapTimes (recordLap 80 (clearLaps (run [Start 0, Fire 1 50, Render, Lap 51, Fire 1 70,
                                              Render, Lap 71] init)))
       = [\<lparr> id_lap = 80, lapNumber = 1, lapTime = 70, totalTime = 70 \<rparr>]"
  using clearLaps_frame
    [of "run [Start 0, Fire 1 50, Render, Lap 51, Fire 1 70, Render, Lap 71] init" 80]
  by (simp add: run_defs)

text \<open>
  C8: after \<open>pauseStopwatch\<close>, after \<open>resetStopwatch\<close> and after the teardown of
  the component, called in any reachable state, no sampling interval is scheduled.
  The callback of an interval created before the call never takes a sample again,
  not even after the stopwatch has been started again. Until the next operation,
  the elapsed time changes at most once after a pause, when the sample that the
  last tick before the pause had queued is rendered, and it stays 0 after a reset.
\<close>

theorem cancelled_interval_never_samples:
  "timers (pauseStopwatch (run es init)) = {}
   \<and> timers (resetStopwatch (run es init)) = {}
   \<and> timers (teardown (run es init)) = {}
   \<and> fire h now (teardown (run es init)) = teardown (run es init)
   \<and> (h < nextTimer (run es init) \<longrightarrow>
        fire h now (run es' (pauseStopwatch (run es init))) = run es' (pauseStopwatch (run es init))
        \<and> fire h now (run es' (resetStopwatch (run es init))) = run es' (resetStopwatch (run es init)))
   \<and> (list_all browser_event bs \<longrightarrow>
        (run bs (pauseStopwatch (run es init)) = pauseStopwatch (run es init)
         \<or> run bs (pauseStopwatch (run es init)) = render (pauseStopwatch (run es init)))
        \<and> run bs (resetStopwatch (run es init)) = resetStopwatch (run es init))
   \<and> time (render (pauseStopwatch (run es init))) = latest (run es init)
   \<and> time (resetStopwatch (run es init)) = 0"
proof -
  have ok: "timers_ok (run es init)" by (rule timers_ok_reachable)
  note p = pause_cancels [OF ok] and r = reset_cancels [OF ok] and t = teardown_cancels [OF ok]
  have fp: "fresh_from (nextTimer (run es init)) (run es' (pauseStopwatch (run es init)))"
    by (rule fresh_from_run) (simp add: fresh_from_def p)
  have fr: "fresh_from (nextTimer (run es init)) (run es' (resetStopwatch (run es init)))"
    by (rule fresh_from_run) (simp add: fresh_from_def r)
  have ft: "fire h now (teardown (run es init)) = teardown (run es init)"
    by (simp add: fire_def t)
  have rp: "pendingTime (resetStopwatch (run es init)) = None"
    and rt: "time (resetStopwatch (run es init)) = 0"
    by (simp_all add: resetStopwatch_def setTime_def clearInterval_def Let_def
        split: option.splits)
  have bp: "list_all browser_event bs \<longrightarrow>
        run bs (pauseStopwatch (run es init)) = pauseStopwatch (run es init)
         \<or> run bs (pauseStopwatch (run es init)) = render (pauseStopwatch (run es init))"
    using p by (simp add: idle_renders_once)
  have br: "list_all browser_event bs \<longrightarrow>
        run bs (resetStopwatch (run es init)) = resetStopwatch (run es init)"
    using r rp by (simp add: idle_quiet)
  have l: "time (render (pauseStopwatch (run es init))) = latest (run es init)"
    by (simp add: render_def latest_def pauseStopwatch_def clearInterval_def Let_def
        split: option.splits)
  from p r t ft fire_stale [OF fp] fire_stale [OF fr] bp br l rt show ?thesis
    by simp
qed

theorem cancelled_interval_never_samples_witness:
  "(1::nat) < nextTimer (run [Start 2, Fire 1 992, Render, Fire 1 1202] init)
   \<and> list_all browser_event [Fire 1 1250, Render, Fire 1 1260, Render]
   \<and> time (run [Start 2, Fire 1 992, Render, Fire 1 1202, Pause] init) = 990
   \<and> time (run [Fire 1 1250, Render, Fire 1 1260, Render]
             (pauseStopwatch (run [Start 2, Fire 1 992, Render, Fire 1 1202] init))) = 1200
   \<and> time (run [Fire 1 1250, Render, Fire 1 1260, Render]
             (resetStopwatch (run [Start 2, Fire 1 992, Render, Fire 1 1202] init))) = 0
   \<and> fire 1 1400 (run [Start 1300]
             (pauseStopwatch (run [Start 2, Fire 1 992, Render, Fire 1 1202] init)))
       = run [Start 1300] (pauseStopwatch (run [Start 2, Fire 1 992, Render, Fire 1 1202] init))"
  using cancelled_interval_never_samples
    [of "[Start 2, Fire 1 992, Render, Fire 1 1202]" 1 1400 "[Start 1300]"
        "[Fire 1 1250, Render, Fire 1 1260, Render]"]
  by (simp add: run_defs)

text \<open>
  The elapsed time does change after \<open>pauseStopwatch\<close> has returned: the tick at
  1202 queues its sample before the pause, and the sample is rendered after it.
\<close>

theorem sample_rendered_after_pause_counterexample:
  "time (run [Start 2, Fire 1 992, Render, Fire 1 1202, Pause] init) = 990
   \<and> isRunning (run [Start 2, Fire 1 992, Render, Fire 1 1202, Pause] init) = False
   \<and> timers (run [Start 2, Fire 1 992, Render, Fire 1 1202, Pause] init) = {}
   \<and> time (run [Start 2, Fire 1 992, Render, Fire 1 1202, Pause, Render] init) = 1200"
  by (simp add: run_defs)

text \<open>
  C9: in every reachable state the lap counter is the number of entries of the lap
  history plus 1, and the entry at index \<open>i\<close> (from 0, in chronological order) has
  the lap number \<open>i + 1\<close>. \<open>recordLap\<close>, \<open>clearLaps\<close> and \<open>resetStopwatch\<close> each
  keep the counter and the history in step.
\<close>

theorem lap_counter_tracks_history:
  "lapCounter (run es init) = int (length (lapTimes (run es init))) + 1
   \<and> (\<forall>i < length (lapTimes (run es init)). lapNumber (lapTimes (run es init) ! i) = int i + 1)
   \<and> (lap_numbering s \<longrightarrow>
        lap_numbering (recordLap now s) \<and> lap_numbering (clearLaps s)
        \<and> lap_numbering (resetStopwatch s))"
proof -
  have n: "lap_numbering (run es init)"
    by (rule lap_numbering_run) (rule lap_numbering_init)
  then have a: "lapCounter (run es init) = int (length (lapTimes (run es init))) + 1"
    and m: "map lapNumber (lapTimes (run es init)) =
              map (\<lambda>i. int i + 1) [0 ..< length (lapTimes (run es init))]"
    by (simp_all add: lap_numbering_def)
  have b: "\<forall>i < length (lapTimes (run es init)). lapNumber (lapTimes (run es init) ! i) = int i + 1"
  proof (intro allI impI)
    fix i assume i: "i < length (lapTimes (run es init))"
    then have "lapNumber (lapTimes (run es init) ! i) = map lapNumber (lapTimes (run es init)) ! i"
      by simp
    also have "\<dots> = map (\<lambda>i. int i + 1) [0 ..< length (lapTimes (run es init))] ! i"
      by (simp only: m)
    also have "\<dots> = int i + 1"
      using i by simp
    finally show "lapNumber (lapTimes (run es init) ! i) = int i + 1" .
  qed
  have c: "lap_numbering s \<longrightarrow>
        lap_numbering (recordLap now s) \<and> lap_numbering (clearLaps s)
        \<and> lap_numbering (resetStopwatch s)"
    by (simp add: lap_numbering_recordLap lap_numbering_clearLaps lap_numbering_resetStopwatch)
  from a b c show ?thesis by simp
qed

theorem lap_counter_tracks_history_witness:
  "lapCounter (run [Start 0, Fire 1 50, Render, Lap 51, Fire 1 70, Render, Lap 71] init) = 3
   \<and> (1::nat) < length (lapTimes (run [Start 0, Fire 1 50, Render, Lap 51, Fire 1 70, Render,
                                       Lap 71] init))
   \<and> lapNumber (lapTimes (run [Start 0, Fire 1 50, Render, Lap 51, Fire 1 70, Render,
                                Lap 71] init) ! 1) = 2
   \<and> lap_numbering (run [Start 0, Fire 1 50, Render, Lap 51] init)
   \<and> lap_numbering (recordLap 60 (run [Start 0, Fire 1 50, Render, Lap 51] init))"
  using lap_counter_tracks_history
    [of "[Start 0, Fire 1 50, Render, Lap 51, Fire 1 70, Render, Lap 71]"
        "run [Start 0, Fire 1 50, Render, Lap 51] init" 60]
  by (simp add: run_defs lap_numbering_def)

text \<open>
  C10: when \<open>recordLap\<close> is called while the stopwatch runs and the elapsed time
  is positive and equal to the total time of the last entry (no tick since the last
  lap), one more entry is appended, with split time 0 and the same total time.
\<close>

theorem recordLap_without_tick_between:
  "isRunning s \<and> 0 < time s \<and> lapTimes s \<noteq> [] \<and> totalTime (last (lapTimes s)) = time s \<longrightarrow>
     lapTimes (recordLap now s) =
       lapTimes s @ [\<lparr> id_lap = now, lapNumber = lapCounter s, lapTime = 0,
                       totalTime = totalTime (last (lapTimes s)) \<rparr>]"
  by (simp add: recordLap_running)

theorem recordLap_without_tick_between_witness:
  "isRunning (run [Start 0, Fire 1 1000, Render, Lap 1001] init)
   \<and> 0 < time (run [Start 0, Fire 1 1000, Render, Lap 1001] init)
   \<and> lapTimes (run [Start 0, Fire 1 1000, Render, Lap 1001] init) \<noteq> []
   \<and> totalTime (last (lapTimes (run [Start 0, Fire 1 1000, Render, Lap 1001] init)))
       = time (run [Start 0, Fire 1 1000, Render, Lap 1001] init)
   \<and> lapTimes (recordLap 1002 (run [Start 0, Fire 1 1000, Render, Lap 1001] init)) =
       [\<lparr> id_lap = 1001, lapNumber = 1, lapTime = 1000, totalTime = 1000 \<rparr>,
        \<lparr> id_lap = 1002, lapNumber = 2, lapTime = 0, totalTime = 1000 \<rparr>]"
  using recordLap_without_tick_between
    [of "run [Start 0, Fire 1 1000, Render, Lap 1001] init" 1002]
  by (simp add: run_defs)

end
